theory Spec2Isabelle
  imports Main "HOL-Library.Sublist"
begin

section \<open>Python strings\<close>

text \<open>
  A Python \<open>str\<close> is a sequence of Unicode code points, so a string is a list of
  natural numbers and \<open>len\<close> is \<open>length\<close>. \<open>str\<close> turns an ASCII literal of the
  source into its code points.
\<close>

type_synonym pystr = "nat list"

definition str :: "string \<Rightarrow> pystr" where
  "str s = map of_char s"

text \<open>
  \<open>isspace\<close> is the whitespace test shared by \<open>str.strip()\<close> and by the class \<open>\s\<close> of
  \<open>re\<close> on \<open>str\<close> patterns: tab, line feed, vertical tab, form feed, carriage return,
  the separators U+001C..U+001F, space, U+0085, U+00A0, U+1680, U+2000..U+200A, U+2028,
  U+2029, U+202F, U+205F and U+3000.
\<close>

definition isspace :: "nat \<Rightarrow> bool" where
  "isspace c \<longleftrightarrow>
     (9 \<le> c \<and> c \<le> 13) \<or> (28 \<le> c \<and> c \<le> 32) \<or> c = 133 \<or> c = 160 \<or> c = 5760 \<or>
     (8192 \<le> c \<and> c \<le> 8202) \<or> c = 8232 \<or> c = 8233 \<or> c = 8239 \<or> c = 8287 \<or> c = 12288"

text \<open>\<open>s.strip()\<close>: leading and trailing whitespace removed.\<close>

definition strip :: "pystr \<Rightarrow> pystr" where
  "strip s = rev (dropWhile isspace (rev (dropWhile isspace s)))"

section \<open>Regular expressions\<close>

text \<open>
  The patterns of this program are sequences of the following items over code points:
  a literal character, a character class under the greedy star \<open>c*\<close>, the lazy star
  \<open>c*?\<close> or the greedy plus \<open>c+\<close>, the optional non-capturing group \<open>(?:...)?\<close>, and
  \<open>$\<close> under \<open>re.MULTILINE\<close>. A class is a predicate: \<open>\s\<close> is \<open>isspace\<close>, \<open>.\<close> is every
  character but the line feed (every character under \<open>re.DOTALL\<close>), \<open>[^)]\<close> is every
  character but \<open>)\<close>.
\<close>

datatype item =
    Lit nat
  | Star "nat \<Rightarrow> bool"
  | Lazy "nat \<Rightarrow> bool"
  | Plus "nat \<Rightarrow> bool"
  | Opt "item list"
  | Eol

text \<open>The literal part of a pattern, character by character.\<close>

definition lit :: "string \<Rightarrow> item list" where
  "lit s = map Lit (str s)"

text \<open>
  The backtracking matcher of \<open>re\<close>, as the list of all its successes in the order in
  which it tries them: each success is the rest of the text after the match. A greedy
  star tries the longest run first, a lazy star the shortest; an optional group tries
  the group before it tries to skip it; \<open>$\<close> succeeds at the end of the text and before
  a line feed, and consumes nothing. The first element of \<open>mseq r s\<close> is the match that
  \<open>re\<close> reports for \<open>r\<close> at the start of \<open>s\<close>.
\<close>

fun greedy :: "(nat \<Rightarrow> bool) \<Rightarrow> pystr \<Rightarrow> pystr list" where
  "greedy c [] = [[]]"
| "greedy c (x # xs) = (if c x then greedy c xs @ [x # xs] else [x # xs])"

fun lazy :: "(nat \<Rightarrow> bool) \<Rightarrow> pystr \<Rightarrow> pystr list" where
  "lazy c [] = [[]]"
| "lazy c (x # xs) = (x # xs) # (if c x then lazy c xs else [])"

fun ms :: "item \<Rightarrow> pystr \<Rightarrow> pystr list" and mseq :: "item list \<Rightarrow> pystr \<Rightarrow> pystr list" where
  "ms (Lit a) s = (case s of [] \<Rightarrow> [] | x # xs \<Rightarrow> if x = a then [xs] else [])"
| "ms (Star c) s = greedy c s"
| "ms (Lazy c) s = lazy c s"
| "ms (Plus c) s = (case s of [] \<Rightarrow> [] | x # xs \<Rightarrow> if c x then greedy c xs else [])"
| "ms (Opt r) s = mseq r s @ [s]"
| "ms Eol s = (case s of [] \<Rightarrow> [[]] | x # xs \<Rightarrow> if x = 10 then [s] else [])"
| "mseq [] s = [s]"
| "mseq (i # r) s = concat (map (mseq r) (ms i s))"

text \<open>The match of \<open>r\<close> at the start of \<open>s\<close>, as the rest behind it; \<open>None\<close> when there is none.\<close>

definition re_match :: "item list \<Rightarrow> pystr \<Rightarrow> pystr option" where
  "re_match r s = (case mseq r s of [] \<Rightarrow> None | t # _ \<Rightarrow> Some t)"

text \<open>
  \<open>re.sub(r, repl, s)\<close> and \<open>re.findall(r, s)\<close> scan the text from the left: where the
  pattern matches, the match is replaced (or collected) and the scan goes on behind it;
  where it does not, the character is kept (or passed over) and the scan goes on at the
  next one. The patterns have no capturing group, so \<open>findall\<close> collects whole matches,
  and \<open>repl\<close> holds no group reference. Every pattern of this program starts with a
  literal and never matches the empty string (lemma \<open>mseq_Lit_shorter\<close>), so the branch
  for an empty match is never taken by them. \<open>re_search r s\<close> is
  \<open>re.search(r, s) is not None\<close>.
\<close>

function re_sub :: "item list \<Rightarrow> pystr \<Rightarrow> pystr \<Rightarrow> pystr" where
  "re_sub r repl [] = (case re_match r [] of None \<Rightarrow> [] | Some t \<Rightarrow> repl)"
| "re_sub r repl (c # cs) =
     (case re_match r (c # cs) of
        None \<Rightarrow> c # re_sub r repl cs
      | Some t \<Rightarrow>
          if length t < length (c # cs) then repl @ re_sub r repl t
          else repl @ c # re_sub r repl cs)"
  by pat_completeness auto
termination
  by (relation "measure (\<lambda>(r, repl, s). length s)") auto

function re_findall :: "item list \<Rightarrow> pystr \<Rightarrow> pystr list" where
  "re_findall r [] = (case re_match r [] of None \<Rightarrow> [] | Some t \<Rightarrow> [[]])"
| "re_findall r (c # cs) =
     (case re_match r (c # cs) of
        None \<Rightarrow> re_findall r cs
      | Some t \<Rightarrow>
          if length t < length (c # cs)
          then take (length (c # cs) - length t) (c # cs) # re_findall r t
          else [] # re_findall r cs)"
  by pat_completeness auto
termination
  by (relation "measure (\<lambda>(r, s). length s)") auto

fun re_search :: "item list \<Rightarrow> pystr \<Rightarrow> bool" where
  "re_search r [] = (re_match r [] \<noteq> None)"
| "re_search r (c # cs) = (re_match r (c # cs) \<noteq> None \<or> re_search r cs)"

text \<open>
  \<open>matches_at r s i j\<close>: the slice \<open>s[i:j]\<close> is a match of \<open>r\<close> at position \<open>i\<close> of \<open>s\<close>, the
  first choice of the matcher or any later one. \<open>occurrences r s\<close> lists every such
  \<open>(i, j)\<close>.
\<close>

definition matches_at :: "item list \<Rightarrow> pystr \<Rightarrow> nat \<Rightarrow> nat \<Rightarrow> bool" where
  "matches_at r s i j \<longleftrightarrow> i \<le> j \<and> j \<le> length s \<and> drop j s \<in> set (mseq r (drop i s))"

definition occurrences :: "item list \<Rightarrow> pystr \<Rightarrow> (nat \<times> nat) list" where
  "occurrences r s =
     [(i, length s - length t). i \<leftarrow> [0..<Suc (length s)], t \<leftarrow> remdups (mseq r (drop i s))]"

text \<open>
  For comparison, the language of a pattern in the usual sense: the texts that the pattern
  matches as a whole. \<open>$\<close> looks at what follows the match, so this is meaningful for
  patterns without it.
\<close>

fun eol_free_item :: "item \<Rightarrow> bool" and eol_free :: "item list \<Rightarrow> bool" where
  "eol_free_item (Lit a) = True"
| "eol_free_item (Star c) = True"
| "eol_free_item (Lazy c) = True"
| "eol_free_item (Plus c) = True"
| "eol_free_item (Opt r) = eol_free r"
| "eol_free_item Eol = False"
| "eol_free [] = True"
| "eol_free (i # r) = (eol_free_item i \<and> eol_free r)"

fun lang_item :: "item \<Rightarrow> pystr set" and lang :: "item list \<Rightarrow> pystr set" where
  "lang_item (Lit a) = {[a]}"
| "lang_item (Star c) = {w. list_all c w}"
| "lang_item (Lazy c) = {w. list_all c w}"
| "lang_item (Plus c) = {w. w \<noteq> [] \<and> list_all c w}"
| "lang_item (Opt r) = insert [] (lang r)"
| "lang_item Eol = {[]}"
| "lang [] = {[]}"
| "lang (i # r) = {u @ v | u v. u \<in> lang_item i \<and> v \<in> lang r}"

section \<open>Training pairs\<close>

text \<open>A training pair is the dict \<open>{"prompt": ..., "completion": ...}\<close>.\<close>

record training_pair =
  prompt :: pystr
  completion :: pystr

section \<open>GitHubGoScraper\<close>

text \<open>
  The exceptions that the modelled functions raise and do not catch themselves:
  \<open>KeyError\<close> from a subscript on a missing key, \<open>binascii.Error\<close> from \<open>base64.b64decode\<close>,
  \<open>UnicodeDecodeError\<close> from \<open>bytes.decode\<close>, \<open>UnicodeEncodeError\<close> and \<open>TypeError\<close> from
  \<open>json.dump\<close>, \<open>JSONDecodeError\<close> from \<open>json.load\<close>.
\<close>

datatype error =
  KeyError | BinasciiError | UnicodeDecodeError | UnicodeEncodeError | TypeError | JSONDecodeError

text \<open>
  One HTTP exchange, \<open>session.get(...)\<close>, \<open>raise_for_status()\<close> and \<open>response.json()\<close>, as the
  caller sees it: either a \<open>requests.RequestException\<close> (connection failure, error status,
  body that is not JSON) or the decoded JSON document.
\<close>

datatype 'a response = RequestException | Json 'a

text \<open>The values of a \<open>params\<close> dict: strings and integers.\<close>

datatype pyval = S pystr | I int

text \<open>\<open>xs[:n]\<close>, with Python's reading of a negative bound.\<close>

definition slice_to :: "int \<Rightarrow> 'a list \<Rightarrow> 'a list" where
  "slice_to n xs = (if 0 \<le> n then take (nat n) xs else take (length xs - nat (- n)) xs)"

text \<open>\<open>s.endswith(sfx)\<close>.\<close>

definition endswith :: "pystr \<Rightarrow> pystr \<Rightarrow> bool" where
  "endswith s sfx \<longleftrightarrow> length sfx \<le> length s \<and> drop (length s - length sfx) s = sfx"

subsection \<open>get_top_go_repos\<close>

definition search_url :: pystr where
  "search_url = str ''https://api.github.com/search/repositories''"

definition search_params :: "nat \<Rightarrow> (pystr \<times> pyval) list" where
  "search_params page =
     [(str ''q'', S (str ''language:go'')),
      (str ''sort'', S (str ''stars'')),
      (str ''order'', S (str ''desc'')),
      (str ''per_page'', I 100),
      (str ''page'', I (int page))]"

text \<open>
  The \<open>while\<close> loop of \<open>get_top_go_repos\<close>, on the state \<open>(repos, page)\<close>. A search document
  is its \<open>items\<close> list, \<open>None\<close> when the key is absent (\<open>data['items']\<close> then raises KeyError,
  which the \<open>except\<close> clause does not catch). The loop has no bound of its own, so it is a
  partial function: \<open>None\<close> is a run that never leaves the loop. Logging and
  \<open>time.sleep\<close> do not touch the state and are left out.
\<close>

partial_function (option) repos_loop ::
  "(pystr \<Rightarrow> (pystr \<times> pyval) list \<Rightarrow> 'r list option response) \<Rightarrow> int \<Rightarrow> 'r list \<Rightarrow> nat \<Rightarrow>
     (error + 'r list) option" where
  "repos_loop session_get limit repos page =
     (if int (length repos) < limit then
        (case session_get search_url (search_params page) of
           RequestException \<Rightarrow> Some (Inr repos)
         | Json data \<Rightarrow>
             (case data of
                None \<Rightarrow> Some (Inl KeyError)
              | Some items \<Rightarrow> repos_loop session_get limit (repos @ items) (page + 1)))
      else Some (Inr repos))"

definition get_top_go_repos ::
  "(pystr \<Rightarrow> (pystr \<times> pyval) list \<Rightarrow> 'r list option response) \<Rightarrow> int \<Rightarrow> (error + 'r list) option" where
  "get_top_go_repos session_get limit =
     (case repos_loop session_get limit [] 1 of
        None \<Rightarrow> None
      | Some (Inl e) \<Rightarrow> Some (Inl e)
      | Some (Inr repos) \<Rightarrow> Some (Inr (slice_to limit repos)))"

text \<open>The items that page \<open>p\<close> delivers; nothing when the fetch fails.\<close>

definition page_items ::
  "(pystr \<Rightarrow> (pystr \<times> pyval) list \<Rightarrow> 'r list option response) \<Rightarrow> nat \<Rightarrow> 'r list" where
  "page_items session_get p =
     (case session_get search_url (search_params p) of
        Json (Some items) \<Rightarrow> items
      | _ \<Rightarrow> [])"

definition page_ok ::
  "(pystr \<Rightarrow> (pystr \<times> pyval) list \<Rightarrow> 'r list option response) \<Rightarrow> nat \<Rightarrow> bool" where
  "page_ok session_get p =
     (case session_get search_url (search_params p) of
        Json (Some items) \<Rightarrow> True
      | _ \<Rightarrow> False)"

subsection \<open>get_repo_files\<close>

text \<open>
  An entry of the tree listing is a dict with the keys \<open>type\<close> and \<open>path\<close> (and others,
  which the extensible record leaves open). The tree document is its \<open>tree\<close> list, \<open>None\<close>
  when the key is absent: \<open>tree.get('tree', [])\<close> then reads the empty list. The \<open>for\<close> loop
  visits every entry, also after \<open>max_files\<close> entries have been kept.
\<close>

record tree_item =
  item_type :: pystr
  item_path :: pystr

definition tree_url :: "pystr \<Rightarrow> pystr" where
  "tree_url repo = str ''https://api.github.com/repos/'' @ repo @ str ''/git/trees/main''"

fun go_files_loop ::
  "'a tree_item_scheme list \<Rightarrow> int \<Rightarrow> 'a tree_item_scheme list \<Rightarrow> 'a tree_item_scheme list" where
  "go_files_loop [] max_files go_files = go_files"
| "go_files_loop (item # items) max_files go_files =
     go_files_loop items max_files
       (if item_type item = str ''blob'' \<and> endswith (item_path item) (str ''.go'') \<and>
           int (length go_files) < max_files
        then go_files @ [item] else go_files)"

definition get_repo_files ::
  "(pystr \<Rightarrow> (pystr \<times> pyval) list \<Rightarrow> 'a tree_item_scheme list option response) \<Rightarrow> pystr \<Rightarrow> int \<Rightarrow>
     'a tree_item_scheme list" where
  "get_repo_files session_get repo max_files =
     (case session_get (tree_url repo) [(str ''recursive'', S (str ''1''))] of
        RequestException \<Rightarrow> []
      | Json tree \<Rightarrow>
          go_files_loop (case tree of None \<Rightarrow> [] | Some items \<Rightarrow> items) max_files [])"

subsection \<open>download_file_content\<close>

text \<open>
  A content document is its \<open>content\<close> field, \<open>None\<close> when the key is absent.
  \<open>base64.b64decode\<close> and \<open>bytes.decode('utf-8')\<close> are library functions: they are parameters
  of the model, each returning either the exception it raises or its result (bytes are
  numbers below 256). Only \<open>requests.RequestException\<close> is caught, so every other exception
  leaves the function: the result is \<open>Inl\<close> the exception, \<open>Inr None\<close> for the \<open>None\<close> of the
  \<open>except\<close> branch, \<open>Inr (Some content)\<close> for the decoded text.
\<close>

definition contents_url :: "pystr \<Rightarrow> pystr \<Rightarrow> pystr" where
  "contents_url repo path = str ''https://api.github.com/repos/'' @ repo @ str ''/contents/'' @ path"

definition download_file_content ::
  "(pystr \<Rightarrow> error + nat list) \<Rightarrow> (nat list \<Rightarrow> error + pystr) \<Rightarrow> (pystr \<Rightarrow> pystr option response) \<Rightarrow>
     pystr \<Rightarrow> pystr \<Rightarrow> error + pystr option" where
  "download_file_content b64decode decode_utf8 session_get repo path =
     (case session_get (contents_url repo path) of
        RequestException \<Rightarrow> Inr None
      | Json data \<Rightarrow>
          (case data of
             None \<Rightarrow> Inl KeyError
           | Some payload \<Rightarrow>
               (case b64decode payload of
                  Inl e \<Rightarrow> Inl e
                | Inr bytes \<Rightarrow>
                    (case decode_utf8 bytes of
                       Inl e \<Rightarrow> Inl e
                     | Inr content \<Rightarrow> Inr (Some content)))))"

section \<open>GoDataProcessor\<close>

subsection \<open>clean_go_code\<close>

text \<open>
  The three patterns of \<open>clean_go_code\<close>: \<open>//.*$\<close> under \<open>re.MULTILINE\<close>, \<open>/\*.*?\*/\<close> under
  \<open>re.DOTALL\<close>, and \<open>\n\s*\n\<close>, which is replaced by one line feed.
\<close>

definition line_comment :: "item list" where
  "line_comment = lit ''//'' @ [Star (\<lambda>c. c \<noteq> 10), Eol]"

definition block_comment :: "item list" where
  "block_comment = lit ''/*'' @ [Lazy (\<lambda>c. True)] @ lit ''*/''"

definition blank_run :: "item list" where
  "blank_run = [Lit 10, Star isspace, Lit 10]"

definition clean_go_code :: "pystr \<Rightarrow> pystr" where
  "clean_go_code code =
     (let code = re_sub line_comment [] code;
          code = re_sub block_comment [] code;
          code = re_sub blank_run [10] code;
          code = strip code
      in code)"

subsection \<open>extract_go_patterns\<close>

text \<open>
  \<open>\w\<close> on a \<open>str\<close> pattern is the underscore and every character that \<open>str.isalnum\<close>
  accepts. That table of the Unicode database is not part of the program; it is the
  parameter \<open>isalnum\<close>. \<open>ascii_alnum\<close> is its restriction to ASCII, used for examples.
  The patterns are \<open>func\s+\w+\s*\([^)]*\)\s*(?:\w+\s+)?\{[^}]*\}\<close>,
  \<open>type\s+\w+\s+interface\s*\{[^}]*\}\<close> and \<open>type\s+\w+\s+struct\s*\{[^}]*\}\<close>; they
  hold no dot, so \<open>re.DOTALL\<close> changes nothing.
\<close>

definition isword :: "(nat \<Rightarrow> bool) \<Rightarrow> nat \<Rightarrow> bool" where
  "isword isalnum c \<longleftrightarrow> isalnum c \<or> c = 95"

definition ascii_alnum :: "nat \<Rightarrow> bool" where
  "ascii_alnum c \<longleftrightarrow> (48 \<le> c \<and> c \<le> 57) \<or> (65 \<le> c \<and> c \<le> 90) \<or> (97 \<le> c \<and> c \<le> 122)"

definition func_pattern :: "(nat \<Rightarrow> bool) \<Rightarrow> item list" where
  "func_pattern isalnum =
     lit ''func'' @ [Plus isspace, Plus (isword isalnum), Star isspace] @ lit ''('' @
     [Star (\<lambda>c. c \<noteq> 41)] @ lit '')'' @
     [Star isspace, Opt [Plus (isword isalnum), Plus isspace]] @ lit ''{'' @
     [Star (\<lambda>c. c \<noteq> 125)] @ lit ''}''"

definition interface_pattern :: "(nat \<Rightarrow> bool) \<Rightarrow> item list" where
  "interface_pattern isalnum =
     lit ''type'' @ [Plus isspace, Plus (isword isalnum), Plus isspace] @ lit ''interface'' @
     [Star isspace] @ lit ''{'' @ [Star (\<lambda>c. c \<noteq> 125)] @ lit ''}''"

definition struct_pattern :: "(nat \<Rightarrow> bool) \<Rightarrow> item list" where
  "struct_pattern isalnum =
     lit ''type'' @ [Plus isspace, Plus (isword isalnum), Plus isspace] @ lit ''struct'' @
     [Star isspace] @ lit ''{'' @ [Star (\<lambda>c. c \<noteq> 125)] @ lit ''}''"

definition extract_go_patterns :: "(nat \<Rightarrow> bool) \<Rightarrow> pystr \<Rightarrow> pystr list" where
  "extract_go_patterns isalnum code =
     (let patterns = [];
          patterns = patterns @ re_findall (func_pattern isalnum) code;
          patterns = patterns @ re_findall (interface_pattern isalnum) code;
          patterns = patterns @ re_findall (struct_pattern isalnum) code
      in patterns)"

subsection \<open>create_training_pairs\<close>

text \<open>
  \<open>create_training_pairs(code, context)\<close>. The guard is \<open>not code.strip()\<close>; \<open>code[:500]\<close>
  is \<open>take 500 code\<close>; \<open>if context\<close> tests that the label is not empty.
\<close>

definition create_training_pairs :: "pystr \<Rightarrow> pystr \<Rightarrow> training_pair list" where
  "create_training_pairs code context =
     (let pairs = [] in
      if strip code = [] then pairs
      else
        let pairs = pairs @
              [\<lparr>prompt = str ''Explain this Go code:\<newline>\<newline>'' @ take 500 code,
                completion = str ''This Go code '' @ context @
                  str ''. Here's what it does:\<newline>\<newline>[Detailed explanation of the code structure, functionality, and Go-specific patterns used]''\<rparr>];
            pairs = (if context \<noteq> [] then pairs @
              [\<lparr>prompt = str ''Write Go code for: '' @ context,
                completion = take 500 code\<rparr>] else pairs);
            pairs = pairs @
              [\<lparr>prompt = str ''Debug this Go code:\<newline>\<newline>'' @ take 500 code,
                completion = str ''Here are potential issues and improvements:\<newline>\<newline>[Analysis of code quality, potential bugs, and Go best practices]''\<rparr>];
            pairs = pairs @
              [\<lparr>prompt = str ''Improve this Go code:\<newline>\<newline>'' @ take 500 code,
                completion = str ''Here's an improved version following Go best practices:\<newline>\<newline>[Refactored code with explanations of improvements]''\<rparr>]
        in pairs)"

section \<open>GoModelTrainer\<close>

text \<open>
  The state that \<open>save_training_data\<close> and \<open>load_training_data\<close> read and write: the
  trainer's \<open>training_data\<close>, the files on disk (a path has a file or has none; every
  path can be opened for writing) and the lines the logger has emitted.
  \<open>json.dump\<close> and \<open>json.load\<close> are library functions and parameters of the model:
  \<open>json_dump\<close> returns the text it writes, or the exception it raises together with the
  text written before it; \<open>json_load\<close> returns the parsed pairs or the exception.
  \<open>open(output_file, 'w')\<close> creates or truncates the file before anything is written.
  Both functions open the file with \<open>encoding='utf-8'\<close>, so a file is its text.
  Each function returns the exception that leaves it, if any, and the new state.
\<close>

datatype level = INFO | WARNING

record state =
  training_data :: "training_pair list"
  files :: "pystr \<rightharpoonup> pystr"
  log :: "(level \<times> pystr) list"

text \<open>\<open>str(n)\<close> for a length \<open>n\<close>, as the f-string of the log line formats it.\<close>

fun str_of_nat :: "nat \<Rightarrow> pystr" where
  "str_of_nat n = (if n < 10 then [48 + n] else str_of_nat (n div 10) @ [48 + n mod 10])"

declare str_of_nat.simps [simp del]

definition logger :: "level \<Rightarrow> pystr \<Rightarrow> state \<Rightarrow> state" where
  "logger lvl msg s = s\<lparr>log := log s @ [(lvl, msg)]\<rparr>"


definition load_training_data ::
  "(pystr \<Rightarrow> error + training_pair list) \<Rightarrow> pystr \<Rightarrow> state \<Rightarrow> error option \<times> state" where
  "load_training_data json_load input_file s =
     (let s = logger INFO (str ''Loading training data from '' @ input_file) s in
      case files s input_file of
        Some text \<Rightarrow>
          (case json_load text of
             Inl e \<Rightarrow> (Some e, s)
           | Inr data \<Rightarrow>
               (let s = s\<lparr>training_data := data\<rparr>;
                    s = logger INFO (str ''Loaded '' @ str_of_nat (length (training_data s)) @
                                     str '' training pairs'') s
                in (None, s)))
      | None \<Rightarrow>
          (None, logger WARNING (str ''Training data file '' @ input_file @ str '' not found'') s))"

section \<open>Lines and auxiliary notions\<close>

text \<open>
  The lines of a text are what \<open>split('\n')\<close> returns; a line is blank when it is empty or
  holds only whitespace; \<open>adjacent_blank\<close> says that two consecutive lines are blank.
\<close>

fun split_nl :: "pystr \<Rightarrow> pystr list" where
  "split_nl [] = [[]]"
| "split_nl (c # cs) =
     (if c = 10 then [] # split_nl cs
      else (case split_nl cs of [] \<Rightarrow> [[c]] | l # ls \<Rightarrow> (c # l) # ls))"





fun ws_nl :: "pystr \<Rightarrow> pystr list" where
  "ws_nl [] = []"
| "ws_nl (x # xs) = (if isspace x then ws_nl xs @ (if x = 10 then [xs] else []) else [])"


definition blank_at :: "pystr \<Rightarrow> bool" where
  "blank_at s \<longleftrightarrow> (\<exists>rest. s = 10 # rest \<and> ws_nl rest \<noteq> [])"

section \<open>Facts about strip\<close>

lemma strip_Nil_iff: "strip s = [] \<longleftrightarrow> (\<forall>c\<in>set s. isspace c)"
proof
  assume "strip s = []"
  then have "dropWhile isspace (rev (dropWhile isspace s)) = []"
    by (simp add: strip_def)
  then have "\<forall>c\<in>set (dropWhile isspace s). isspace c"
    by (simp add: dropWhile_eq_Nil_conv)
  then have "dropWhile isspace s = []"
    by (metis hd_dropWhile list.set_sel(1))
  then show "\<forall>c\<in>set s. isspace c"
    by (simp add: dropWhile_eq_Nil_conv)
next
  assume "\<forall>c\<in>set s. isspace c"
  then show "strip s = []"
    by (auto simp: strip_def dest: set_dropWhileD)
qed

section \<open>Pair synthesis\<close>

text \<open>
  C10. A text made only of whitespace characters, whatever its length, yields no pairs
  under every label: the guard of \<open>create_training_pairs\<close> tests the stripped text.
\<close>

theorem create_training_pairs_blank:
  "\<forall>c\<in>set code. isspace c \<Longrightarrow> create_training_pairs code context = []"
  by (simp add: create_training_pairs_def strip_Nil_iff)

theorem create_training_pairs_blank_witness:
  "isspace 32 \<and> isspace 9 \<and> isspace 10 \<and> [32, 9, 10] \<noteq> ([] :: pystr) \<and>
   create_training_pairs [32, 9, 10] (str ''Go example'') = []"
proof -
  have h: "\<forall>c\<in>set [32, 9, 10]. isspace c"
    by (simp add: isspace_def)
  show ?thesis
    using h create_training_pairs_blank [OF h, of "str ''Go example''"] by simp
qed

text \<open>
  C2, as stated, fails: a text that is not empty but holds only whitespace (one space)
  with the empty label gives no pair at all, not three.
\<close>

theorem create_training_pairs_three_counterexample:
  "[32] \<noteq> ([] :: pystr) \<and> length (create_training_pairs [32] []) \<noteq> 3"
  by (simp add: create_training_pairs_def strip_def isspace_def)

text \<open>
  C2, amended. The empty text yields no pair under every label. A text with at least one
  character that is not whitespace yields, under the empty label, exactly three pairs
  (explanation, debugging, improvement: the generation pair is left out) and, under a
  label that is not empty, exactly four pairs in the order explanation, generation,
  debugging, improvement, the generation pair completing with the text cut to 500
  characters.
\<close>

theorem create_training_pairs_count:
  "create_training_pairs [] context = [] \<and>
   ((\<exists>c\<in>set code. \<not> isspace c) \<longrightarrow>
      length (create_training_pairs code []) = 3 \<and>
      map prompt (create_training_pairs code []) =
        [str ''Explain this Go code:\<newline>\<newline>'' @ take 500 code,
         str ''Debug this Go code:\<newline>\<newline>'' @ take 500 code,
         str ''Improve this Go code:\<newline>\<newline>'' @ take 500 code]) \<and>
   ((\<exists>c\<in>set code. \<not> isspace c) \<and> context \<noteq> [] \<longrightarrow>
      length (create_training_pairs code context) = 4 \<and>
      map prompt (create_training_pairs code context) =
        [str ''Explain this Go code:\<newline>\<newline>'' @ take 500 code,
         str ''Write Go code for: '' @ context,
         str ''Debug this Go code:\<newline>\<newline>'' @ take 500 code,
         str ''Improve this Go code:\<newline>\<newline>'' @ take 500 code] \<and>
      completion (create_training_pairs code context ! 1) = take 500 code)"
proof -
  have empty: "create_training_pairs [] context = []"
    by (simp add: create_training_pairs_def strip_def)
  have guard: "strip code \<noteq> []" if "\<exists>c\<in>set code. \<not> isspace c"
    using that by (simp add: strip_Nil_iff)
  show ?thesis
    using empty guard by (simp add: create_training_pairs_def)
qed

theorem create_training_pairs_count_witness:
  "(\<exists>c\<in>set (str ''x''). \<not> isspace c) \<and> str ''ctx'' \<noteq> [] \<and>
   length (create_training_pairs (str ''x'') []) = 3 \<and>
   length (create_training_pairs (str ''x'') (str ''ctx'')) = 4 \<and>
   completion (create_training_pairs (str ''x'') (str ''ctx'') ! 1) = str ''x''"
proof -
  have h: "\<exists>c\<in>set (str ''x''). \<not> isspace c"
    by (simp add: str_def isspace_def)
  have n: "str ''ctx'' \<noteq> []"
    by (simp add: str_def)
  show ?thesis
    using h n create_training_pairs_count [of "str ''ctx''" "str ''x''"]
    by (simp add: str_def)
qed

section \<open>Repository listing\<close>

lemma page_ok_items:
  "page_ok g p \<longleftrightarrow> g search_url (search_params p) = Json (Some (page_items g p))"
  by (simp add: page_ok_def page_items_def split: response.splits option.splits)

lemma repos_loop_diverges:
  assumes "repos_loop g limit repos page = Some y"
  shows "(\<forall>p. g search_url (search_params p) = Json (Some [])) \<longrightarrow> \<not> int (length repos) < limit"
  apply (rule repos_loop.raw_induct [OF _ assms])
  apply (intro impI)
  apply (simp split: if_splits)
  done

lemma repos_loop_sound:
  assumes "repos_loop g limit repos page = Some y"
  shows "\<forall>rs. y = Inr rs \<longrightarrow>
           (\<exists>n. (\<forall>p. page \<le> p \<and> p < page + n \<longrightarrow> page_ok g p) \<and>
                rs = repos @ concat (map (page_items g) [page..<page + n]))"
proof (rule repos_loop.raw_induct [OF _ assms], intro allI impI)
  fix loop :: "(pystr \<Rightarrow> (pystr \<times> pyval) list \<Rightarrow> 'a list option response) \<Rightarrow> int \<Rightarrow> 'a list \<Rightarrow> nat \<Rightarrow>
     (error + 'a list) option"
  fix g limit repos page y rs
  assume IH: "\<And>g limit repos page y. loop g limit repos page = Some y \<Longrightarrow>
     \<forall>rs. y = Inr rs \<longrightarrow>
           (\<exists>n. (\<forall>p. page \<le> p \<and> p < page + n \<longrightarrow> page_ok g p) \<and>
                rs = repos @ concat (map (page_items g) [page..<page + n]))"
  assume body: "(if int (length repos) < limit then
        (case g search_url (search_params page) of
           RequestException \<Rightarrow> Some (Inr repos)
         | Json data \<Rightarrow>
             (case data of
                None \<Rightarrow> Some (Inl KeyError)
              | Some items \<Rightarrow> loop g limit (repos @ items) (page + 1)))
      else Some (Inr repos)) = Some y"
  assume y: "y = Inr rs"
  let ?goal = "\<exists>n. (\<forall>p. page \<le> p \<and> p < page + n \<longrightarrow> page_ok g p) \<and>
                rs = repos @ concat (map (page_items g) [page..<page + n])"
  have stop: ?goal if "rs = repos"
    using that by (intro exI [of _ 0]) auto
  show ?goal
  proof (cases "int (length repos) < limit")
    case False
    with body y have "rs = repos" by simp
    then show ?thesis by (rule stop)
  next
    case True
    show ?thesis
    proof (cases "g search_url (search_params page)")
      case RequestException
      with body y True have "rs = repos" by simp
      then show ?thesis by (rule stop)
    next
      case (Json data)
      show ?thesis
      proof (cases data)
        case None
        with body y True Json show ?thesis by simp
      next
        case (Some items)
        with body True Json have "loop g limit (repos @ items) (page + 1) = Some y"
          by simp
        from IH [OF this] y obtain n where
          ok: "\<forall>p. page + 1 \<le> p \<and> p < page + 1 + n \<longrightarrow> page_ok g p" and
          rs: "rs = (repos @ items) @ concat (map (page_items g) [page + 1..<page + 1 + n])"
          by blast
        have here: "page_ok g page" "page_items g page = items"
          using Json Some by (simp_all add: page_ok_def page_items_def)
        have "\<forall>p. page \<le> p \<and> p < page + Suc n \<longrightarrow> page_ok g p"
        proof (intro allI impI)
          fix p assume "page \<le> p \<and> p < page + Suc n"
          then have "p = page \<or> (page + 1 \<le> p \<and> p < page + 1 + n)" by arith
          with ok here show "page_ok g p" by blast
        qed
        moreover have u: "[page..<page + Suc n] = page # [page + 1..<page + 1 + n]"
          by (simp del: upt_Suc add: upt_conv_Cons)
        have "rs = repos @ concat (map (page_items g) [page..<page + Suc n])"
          unfolding u using rs here by simp
        ultimately show ?thesis by blast
      qed
    qed
  qed
qed

text \<open>
  The ways out of the loop: a run that leaves the loop has fetched pages \<open>page, ..., k - 1\<close>
  and then either holds \<open>limit\<close> items or more, or met a \<open>RequestException\<close> at page \<open>k\<close>,
  or met a document without \<open>items\<close> there (the uncaught \<open>KeyError\<close>). An empty page is
  not among them.
\<close>

lemma repos_loop_exits:
  assumes "repos_loop g limit repos page = Some y"
  shows "\<exists>k. page \<le> k \<and> (\<forall>p. page \<le> p \<and> p < k \<longrightarrow> page_ok g p) \<and>
             (limit \<le> int (length (repos @ concat (map (page_items g) [page..<k]))) \<or>
              g search_url (search_params k) = RequestException \<or>
              g search_url (search_params k) = Json None)"
proof (rule repos_loop.raw_induct [OF _ assms])
  fix loop :: "(pystr \<Rightarrow> (pystr \<times> pyval) list \<Rightarrow> 'a list option response) \<Rightarrow> int \<Rightarrow> 'a list \<Rightarrow> nat \<Rightarrow>
     (error + 'a list) option"
  fix g limit repos page y
  assume IH: "\<And>g limit repos page y. loop g limit repos page = Some y \<Longrightarrow>
     \<exists>k. page \<le> k \<and> (\<forall>p. page \<le> p \<and> p < k \<longrightarrow> page_ok g p) \<and>
             (limit \<le> int (length (repos @ concat (map (page_items g) [page..<k]))) \<or>
              g search_url (search_params k) = RequestException \<or>
              g search_url (search_params k) = Json None)"
  assume body: "(if int (length repos) < limit then
        (case g search_url (search_params page) of
           RequestException \<Rightarrow> Some (Inr repos)
         | Json data \<Rightarrow>
             (case data of
                None \<Rightarrow> Some (Inl KeyError)
              | Some items \<Rightarrow> loop g limit (repos @ items) (page + 1)))
      else Some (Inr repos)) = Some y"
  let ?exit = "\<lambda>k. page \<le> k \<and> (\<forall>p. page \<le> p \<and> p < k \<longrightarrow> page_ok g p) \<and>
             (limit \<le> int (length (repos @ concat (map (page_items g) [page..<k]))) \<or>
              g search_url (search_params k) = RequestException \<or>
              g search_url (search_params k) = Json None)"
  have here: "?exit page"
    if "limit \<le> int (length repos) \<or> g search_url (search_params page) = RequestException \<or>
        g search_url (search_params page) = Json None"
    using that by auto
  show "\<exists>k. ?exit k"
  proof (cases "int (length repos) < limit")
    case False
    then show ?thesis using here by (intro exI [of _ page]) simp
  next
    case True
    show ?thesis
    proof (cases "g search_url (search_params page)")
      case RequestException
      then show ?thesis using here by (intro exI [of _ page]) simp
    next
      case (Json data)
      show ?thesis
      proof (cases data)
        case None
        with Json show ?thesis using here by (intro exI [of _ page]) simp
      next
        case (Some items)
        with body True Json have "loop g limit (repos @ items) (page + 1) = Some y"
          by simp
        from IH [OF this] obtain k where
          k: "page + 1 \<le> k" and
          ok: "\<forall>p. page + 1 \<le> p \<and> p < k \<longrightarrow> page_ok g p" and
          ex: "limit \<le> int (length ((repos @ items) @ concat (map (page_items g) [page + 1..<k]))) \<or>
               g search_url (search_params k) = RequestException \<or>
               g search_url (search_params k) = Json None"
          by blast
        have this_page: "page_ok g page" "page_items g page = items"
          using Json Some by (simp_all add: page_ok_def page_items_def)
        have "\<forall>p. page \<le> p \<and> p < k \<longrightarrow> page_ok g p"
        proof (intro allI impI)
          fix p assume "page \<le> p \<and> p < k"
          then have "p = page \<or> (page + 1 \<le> p \<and> p < k)" by arith
          with ok this_page show "page_ok g p" by blast
        qed
        moreover have "(repos @ items) @ concat (map (page_items g) [page + 1..<k]) =
                       repos @ concat (map (page_items g) [page..<k])"
          using k this_page by (simp add: upt_conv_Cons)
        ultimately have "?exit k" using k ex by auto
        then show ?thesis by blast
      qed
    qed
  qed
qed

lemma repos_loop_stops:
  "page \<le> k \<Longrightarrow> (\<forall>p. page \<le> p \<and> p < k \<longrightarrow> page_ok g p) \<Longrightarrow>
   g search_url (search_params k) = RequestException \<or>
   limit \<le> int (length (repos @ concat (map (page_items g) [page..<k]))) \<Longrightarrow>
   \<exists>rs. repos_loop g limit repos page = Some (Inr rs) \<and>
        take (nat limit) rs = take (nat limit) (repos @ concat (map (page_items g) [page..<k]))"
proof (induction "k - page" arbitrary: page repos)
  case 0
  then have "page = k" by simp
  with 0 show ?case
    by (subst repos_loop.simps) auto
next
  case (Suc d)
  then have lt: "page < k" by simp
  with Suc.prems have ok: "page_ok g page" by simp
  then have resp: "g search_url (search_params page) = Json (Some (page_items g page))"
    by (simp add: page_ok_items)
  have next_pages:
    "d = k - (page + 1)" "page + 1 \<le> k" "\<forall>p. page + 1 \<le> p \<and> p < k \<longrightarrow> page_ok g p"
    using Suc.hyps(2) Suc.prems(1,2) lt by auto
  have cat: "(repos @ page_items g page) @ concat (map (page_items g) [page + 1..<k]) =
             repos @ concat (map (page_items g) [page..<k])"
    using lt by (simp add: upt_conv_Cons)
  from Suc.prems(3) have stop: "g search_url (search_params k) = RequestException \<or>
    limit \<le> int (length ((repos @ page_items g page) @ concat (map (page_items g) [page + 1..<k])))"
    by (simp only: cat)
  from Suc.hyps(1) [OF next_pages stop]
  obtain rs where
    rs: "repos_loop g limit (repos @ page_items g page) (page + 1) = Some (Inr rs)" and
    tk: "take (nat limit) rs =
         take (nat limit) ((repos @ page_items g page) @ concat (map (page_items g) [page + 1..<k]))"
    by blast
  show ?case
  proof (cases "int (length repos) < limit")
    case True
    then have "repos_loop g limit repos page = Some (Inr rs)"
      using resp rs by (subst repos_loop.simps) simp
    moreover from tk cat have
      "take (nat limit) rs = take (nat limit) (repos @ concat (map (page_items g) [page..<k]))"
      by (simp only:)
    ultimately show ?thesis by blast
  next
    case False
    then have "repos_loop g limit repos page = Some (Inr repos)"
      by (subst repos_loop.simps) simp
    moreover from False have "take (nat limit) (repos @ concat (map (page_items g) [page..<k])) = take (nat limit) repos"
      by simp
    ultimately show ?thesis by simp
  qed
qed

lemma repos_loop_not_positive:
  "limit \<le> 0 \<Longrightarrow> repos_loop g limit [] page = Some (Inr [])"
  by (subst repos_loop.simps) simp

text \<open>
  C4. Whenever \<open>get_top_go_repos\<close> returns a list, the list has at most \<open>limit\<close> entries and
  is the first \<open>limit\<close> entries of the items of pages \<open>1, 2, ..., n\<close>, all fetched without
  error, concatenated in page order: the order in which the upstream delivered them is
  kept, so the result is ranked (by any relation \<open>ranked\<close>, such as descending stars) if
  what the pages delivered is. When the pages before page \<open>k\<close> were delivered and the fetch of page \<open>k\<close> fails, or
  those pages hold \<open>limit\<close> items or more, the function does return (it does not raise,
  and it does not run on): the first \<open>limit\<close> entries of what pages \<open>1, ..., k - 1\<close>
  delivered. For \<open>limit \<le> 0\<close> the result is empty.
\<close>

theorem get_top_go_repos_result:
  "(get_top_go_repos g limit = Some (Inr rs) \<longrightarrow>
      length rs \<le> nat limit \<and>
      (\<exists>n. (\<forall>p. 1 \<le> p \<and> p < 1 + n \<longrightarrow> page_ok g p) \<and>
           rs = take (nat limit) (concat (map (page_items g) [1..<1 + n])) \<and>
           (sorted_wrt ranked (concat (map (page_items g) [1..<1 + n])) \<longrightarrow>
              sorted_wrt ranked rs))) \<and>
   (1 \<le> k \<and> (\<forall>p. 1 \<le> p \<and> p < k \<longrightarrow> page_ok g p) \<and>
    (g search_url (search_params k) = RequestException \<or>
     limit \<le> int (length (concat (map (page_items g) [1..<k])))) \<longrightarrow>
      get_top_go_repos g limit =
        Some (Inr (take (nat limit) (concat (map (page_items g) [1..<k])))))"
proof (intro conjI impI)
  assume r: "get_top_go_repos g limit = Some (Inr rs)"
  then obtain repos where
    loop: "repos_loop g limit [] 1 = Some (Inr repos)" and rs: "rs = slice_to limit repos"
    by (auto simp: get_top_go_repos_def split: option.splits sum.splits)
  have tk: "rs = take (nat limit) repos"
  proof (cases "0 \<le> limit")
    case True
    with rs show ?thesis by (simp add: slice_to_def)
  next
    case False
    with loop repos_loop_not_positive [of limit g 1] have "repos = []" by simp
    with rs show ?thesis by (simp add: slice_to_def)
  qed
  then show "length rs \<le> nat limit" by simp
  from repos_loop_sound [OF loop] obtain n where
    ok: "\<forall>p. 1 \<le> p \<and> p < 1 + n \<longrightarrow> page_ok g p" and
    "repos = [] @ concat (map (page_items g) [1..<1 + n])"
    by blast
  with tk have eq: "rs = take (nat limit) (concat (map (page_items g) [1..<1 + n]))"
    by (simp only: append_Nil)
  have "sorted_wrt ranked rs" if "sorted_wrt ranked (concat (map (page_items g) [1..<1 + n]))"
    unfolding eq using that by (rule sorted_wrt_take)
  with ok eq show "\<exists>n. (\<forall>p. 1 \<le> p \<and> p < 1 + n \<longrightarrow> page_ok g p) \<and>
           rs = take (nat limit) (concat (map (page_items g) [1..<1 + n])) \<and>
           (sorted_wrt ranked (concat (map (page_items g) [1..<1 + n])) \<longrightarrow>
              sorted_wrt ranked rs)"
    by blast
next
  assume a: "1 \<le> k \<and> (\<forall>p. 1 \<le> p \<and> p < k \<longrightarrow> page_ok g p) \<and>
    (g search_url (search_params k) = RequestException \<or>
     limit \<le> int (length (concat (map (page_items g) [1..<k]))))"
  then obtain repos where
    loop: "repos_loop g limit [] 1 = Some (Inr repos)" and
    tk: "take (nat limit) repos = take (nat limit) ([] @ concat (map (page_items g) [1..<k]))"
    using repos_loop_stops [of 1 k g limit "[]"] by auto
  have "slice_to limit repos = take (nat limit) repos"
  proof (cases "0 \<le> limit")
    case True
    then show ?thesis by (simp add: slice_to_def)
  next
    case False
    with loop repos_loop_not_positive [of limit g 1] have "repos = []" by simp
    then show ?thesis by (simp add: slice_to_def)
  qed
  with loop tk show "get_top_go_repos g limit =
        Some (Inr (take (nat limit) (concat (map (page_items g) [1..<k]))))"
    by (simp add: get_top_go_repos_def)
qed

theorem get_top_go_repos_result_witness:
  "page_ok (\<lambda>url params. if params = search_params 1 then Json (Some [30, 20, 10 :: nat])
                          else RequestException) 1 \<and>
   get_top_go_repos (\<lambda>url params. if params = search_params 1 then Json (Some [30, 20, 10 :: nat])
                                   else RequestException) 2 = Some (Inr [30, 20])"
proof -
  let ?g = "\<lambda>(url :: pystr) params. if params = search_params 1 then Json (Some [30, 20, 10 :: nat])
                          else RequestException"
  have ok: "page_ok ?g 1"
    by (simp add: page_ok_def)
  have err: "?g search_url (search_params 2) = RequestException"
    by (simp add: search_params_def)
  have items: "page_items ?g 1 = [30, 20, 10]"
    by (simp add: page_items_def)
  have "\<forall>p. 1 \<le> p \<and> p < 2 \<longrightarrow> page_ok ?g p"
  proof (intro allI impI)
    fix p :: nat assume "1 \<le> p \<and> p < 2"
    then have "p = 1" by arith
    with ok show "page_ok ?g p" by simp
  qed
  with err get_top_go_repos_result [of ?g 2 "[30, 20]" "(\<ge>)" 2]
  have "get_top_go_repos ?g 2 = Some (Inr (take (nat 2) (concat (map (page_items ?g) [1..<2]))))"
    by simp
  moreover have "[Suc 0..<2] = [Suc 0]"
    by (simp add: upt_rec)
  ultimately show ?thesis using ok items by simp
qed

text \<open>
  C3. The claim asks the loop to end when the upstream reports no more items. The code has
  no such exit: against an upstream that answers every page with an empty \<open>items\<close> list and
  \<open>limit = 1\<close>, the loop never ends and \<open>get_top_go_repos\<close> returns nothing.
\<close>

theorem get_top_go_repos_empty_pages_diverge:
  "get_top_go_repos (\<lambda>url params. Json (Some [])) 1 = None"
proof -
  let ?g = "\<lambda>(url :: pystr) (params :: (pystr \<times> pyval) list). Json (Some ([] :: 'a list))"
  have "repos_loop ?g 1 [] 1 = None"
  proof (cases "repos_loop ?g 1 [] 1")
    case None
    then show ?thesis .
  next
    case (Some y)
    from repos_loop_diverges [OF this] show ?thesis by simp
  qed
  then show ?thesis by (simp add: get_top_go_repos_def)
qed

section \<open>File listing and download\<close>

lemma go_files_loop_eq:
  "go_files_loop items max_files go_files =
     go_files @ take (nat max_files - length go_files)
       (filter (\<lambda>item. item_type item = str ''blob'' \<and> endswith (item_path item) (str ''.go'')) items)"
proof (induction items arbitrary: go_files)
  case Nil
  then show ?case by simp
next
  case (Cons item items)
  show ?case
  proof (cases "item_type item = str ''blob'' \<and> endswith (item_path item) (str ''.go'') \<and>
           int (length go_files) < max_files")
    case True
    then obtain d where d: "nat max_files - length go_files = Suc d" "nat max_files - Suc (length go_files) = d"
      by (cases "nat max_files - length go_files") auto
    with True show ?thesis by (simp add: Cons.IH)
  next
    case False
    then show ?thesis by (auto simp: Cons.IH)
  qed
qed

text \<open>
  C8. \<open>get_repo_files\<close> returns at most \<open>max_files\<close> entries; each is of type \<open>blob\<close> with a
  path that ends in \<open>.go\<close>; for a tree listing the result is the first \<open>max_files\<close> such
  entries in the order of the listing (none for a document without a listing); and when
  the fetch fails the result is the empty list, not an error.
\<close>

theorem get_repo_files_result:
  "length (get_repo_files session_get repo max_files) \<le> nat max_files \<and>
   (\<forall>item\<in>set (get_repo_files session_get repo max_files).
      item_type item = str ''blob'' \<and> endswith (item_path item) (str ''.go'')) \<and>
   (session_get (tree_url repo) [(str ''recursive'', S (str ''1''))] = Json (Some tree) \<longrightarrow>
      get_repo_files session_get repo max_files =
        take (nat max_files)
          (filter (\<lambda>item. item_type item = str ''blob'' \<and> endswith (item_path item) (str ''.go'')) tree)) \<and>
   (session_get (tree_url repo) [(str ''recursive'', S (str ''1''))] = Json None \<longrightarrow>
      get_repo_files session_get repo max_files = []) \<and>
   (session_get (tree_url repo) [(str ''recursive'', S (str ''1''))] = RequestException \<longrightarrow>
      get_repo_files session_get repo max_files = [])"
  by (auto simp: get_repo_files_def go_files_loop_eq split: response.splits option.splits
      dest: in_set_takeD)

theorem get_repo_files_result_witness:
  "get_repo_files
     (\<lambda>url params. Json (Some
        [\<lparr>item_type = str ''blob'', item_path = str ''main.go''\<rparr>,
         \<lparr>item_type = str ''blob'', item_path = str ''README.md''\<rparr>,
         \<lparr>item_type = str ''tree'', item_path = str ''pkg.go''\<rparr>,
         \<lparr>item_type = str ''blob'', item_path = str ''pkg.go/a.go''\<rparr>,
         \<lparr>item_type = str ''blob'', item_path = str ''b.go''\<rparr>]))
     (str ''acme/widget'') 2 =
   [\<lparr>item_type = str ''blob'', item_path = str ''main.go''\<rparr>,
    \<lparr>item_type = str ''blob'', item_path = str ''pkg.go/a.go''\<rparr>]"
  using get_repo_files_result
    [of "\<lambda>url params. Json (Some
        [\<lparr>item_type = str ''blob'', item_path = str ''main.go''\<rparr>,
         \<lparr>item_type = str ''blob'', item_path = str ''README.md''\<rparr>,
         \<lparr>item_type = str ''tree'', item_path = str ''pkg.go''\<rparr>,
         \<lparr>item_type = str ''blob'', item_path = str ''pkg.go/a.go''\<rparr>,
         \<lparr>item_type = str ''blob'', item_path = str ''b.go''\<rparr>])"
        "str ''acme/widget''" 2
        "[\<lparr>item_type = str ''blob'', item_path = str ''main.go''\<rparr>,
         \<lparr>item_type = str ''blob'', item_path = str ''README.md''\<rparr>,
         \<lparr>item_type = str ''tree'', item_path = str ''pkg.go''\<rparr>,
         \<lparr>item_type = str ''blob'', item_path = str ''pkg.go/a.go''\<rparr>,
         \<lparr>item_type = str ''blob'', item_path = str ''b.go''\<rparr>]"]
  by (simp add: str_def endswith_def)

text \<open>
  C5. The claim asks for \<open>None\<close> on every decode failure. The code raises instead: a
  document without the \<open>content\<close> field raises \<open>KeyError\<close>, and an exception of
  \<open>base64.b64decode\<close> or of \<open>decode('utf-8')\<close> leaves \<open>download_file_content\<close> uncaught.
\<close>

theorem download_file_content_raises:
  "download_file_content b64decode decode_utf8 (\<lambda>url. Json None) repo path = Inl KeyError \<and>
   download_file_content (\<lambda>payload. Inl BinasciiError) decode_utf8 (\<lambda>url. Json (Some payload)) repo path =
     Inl BinasciiError \<and>
   download_file_content (\<lambda>payload. Inr bytes) (\<lambda>bytes. Inl UnicodeDecodeError)
     (\<lambda>url. Json (Some payload)) repo path = Inl UnicodeDecodeError"
  by (simp add: download_file_content_def)

text \<open>
  What \<open>download_file_content\<close> does return: \<open>None\<close> after a failed fetch, and the decoded
  text for a payload that decodes.
\<close>

lemma download_file_content_returns:
  "(session_get (contents_url repo path) = RequestException \<longrightarrow>
      download_file_content b64decode decode_utf8 session_get repo path = Inr None) \<and>
   (session_get (contents_url repo path) = Json (Some payload) \<and> b64decode payload = Inr bytes \<and>
    decode_utf8 bytes = Inr content \<longrightarrow>
      download_file_content b64decode decode_utf8 session_get repo path = Inr (Some content))"
  by (simp add: download_file_content_def)

section \<open>Saving and loading\<close>

text \<open>
  C6, as stated, fails: with one pair in memory and no file at the path,
  \<open>load_training_data\<close> leaves that pair in memory; the sequence is not empty afterwards.
\<close>

theorem load_training_data_absent_counterexample:
  "files \<lparr>training_data = [\<lparr>prompt = str ''p'', completion = str ''c''\<rparr>], files = Map.empty, log = []\<rparr>
     (str ''training_data.json'') = None \<and>
   training_data (snd (load_training_data (\<lambda>text. Inl JSONDecodeError) (str ''training_data.json'')
     \<lparr>training_data = [\<lparr>prompt = str ''p'', completion = str ''c''\<rparr>], files = Map.empty, log = []\<rparr>))
     \<noteq> []"
  by (simp add: load_training_data_def logger_def Let_def)

text \<open>
  C6, amended. For a path at which no file exists, \<open>load_training_data\<close> raises nothing and
  changes nothing but the log, which gains the info line and the warning: the in-memory
  sequence is what it was before the call (empty only if it was empty). For an existing
  file whose text \<open>json.load\<close> parses, it raises nothing and replaces the whole in-memory
  sequence with the parsed contents.
\<close>

theorem load_training_data_result:
  "(files s input_file = None \<longrightarrow>
      load_training_data json_load input_file s =
        (None, s\<lparr>log := log s @
           [(INFO, str ''Loading training data from '' @ input_file),
            (WARNING, str ''Training data file '' @ input_file @ str '' not found'')]\<rparr>)) \<and>
   (files s input_file = Some text \<and> json_load text = Inr data \<longrightarrow>
      fst (load_training_data json_load input_file s) = None \<and>
      training_data (snd (load_training_data json_load input_file s)) = data \<and>
      files (snd (load_training_data json_load input_file s)) = files s)"
  by (simp add: load_training_data_def logger_def Let_def)

theorem load_training_data_result_witness:
  "load_training_data (\<lambda>text. Inr []) (str ''missing.json'')
     \<lparr>training_data = [\<lparr>prompt = str ''p'', completion = str ''c''\<rparr>],
       files = Map.empty, log = []\<rparr> =
     (None,
      \<lparr>training_data = [\<lparr>prompt = str ''p'', completion = str ''c''\<rparr>],
        files = Map.empty,
        log = [(INFO, str ''Loading training data from missing.json''),
               (WARNING, str ''Training data file missing.json not found'')]\<rparr>) \<and>
   training_data (snd (load_training_data (\<lambda>text. Inr []) (str ''data.json'')
     \<lparr>training_data = [\<lparr>prompt = str ''p'', completion = str ''c''\<rparr>],
       files = [str ''data.json'' \<mapsto> str ''[]''], log = []\<rparr>)) = []"
  using load_training_data_result
    [of "\<lparr>training_data = [\<lparr>prompt = str ''p'', completion = str ''c''\<rparr>],
          files = Map.empty, log = []\<rparr>"
        "str ''missing.json''" "\<lambda>text. Inr []" "str ''[]''" "[]"]
    load_training_data_result
    [of "\<lparr>training_data = [\<lparr>prompt = str ''p'', completion = str ''c''\<rparr>],
          files = [str ''data.json'' \<mapsto> str ''[]''], log = []\<rparr>"
        "str ''data.json''" "\<lambda>text. Inr []" "str ''[]''" "[]"]
  by (simp add: str_def)



section \<open>The matcher\<close>

lemma greedy_suffix: "t \<in> set (greedy c s) \<Longrightarrow> suffix t s"
  by (induction s) (auto simp: suffix_Cons split: if_splits)

lemma lazy_suffix: "t \<in> set (lazy c s) \<Longrightarrow> suffix t s"
  by (induction s) (auto simp: suffix_Cons split: if_splits)

lemma ms_suffix: "t \<in> set (ms i s) \<Longrightarrow> suffix t s"
  and mseq_suffix: "t \<in> set (mseq r s) \<Longrightarrow> suffix t s"
proof (induction i s and r s arbitrary: t and t rule: ms_mseq.induct)
  case (8 i r s)
  from 8(3) obtain u where u: "u \<in> set (ms i s)" and t: "t \<in> set (mseq r u)"
    by auto
  from 8(1) [OF u] have "suffix u s" .
  moreover from 8(2) [OF u t] have "suffix t u" .
  ultimately show ?case by (rule suffix_order.trans [rotated])
qed (auto simp: suffix_Cons dest: greedy_suffix lazy_suffix split: list.splits if_splits)


lemma suffix_drop_length: "suffix t s \<Longrightarrow> drop (length s - length t) s = t"
  by (auto simp: suffix_def)

lemma set_occurrences: "set (occurrences r s) = {(i, j). matches_at r s i j}"
proof (intro equalityI subsetI)
  fix p assume "p \<in> set (occurrences r s)"
  then obtain i t where p: "p = (i, length s - length t)" and i: "i \<le> length s"
    and t: "t \<in> set (mseq r (drop i s))"
    unfolding occurrences_def by (auto simp del: upt_Suc)
  from t have suf: "suffix t (drop i s)" by (rule mseq_suffix)
  then have len: "length t \<le> length s - i"
    using suffix_length_le by fastforce
  from suf have "suffix t s"
    using suffix_drop suffix_order.trans by blast
  then have "drop (length s - length t) s = t" by (rule suffix_drop_length)
  with t i len have "matches_at r s i (length s - length t)"
    by (simp add: matches_at_def)
  with p show "p \<in> {(i, j). matches_at r s i j}" by simp
next
  fix p assume "p \<in> {(i, j). matches_at r s i j}"
  then obtain i j where p: "p = (i, j)" and m: "matches_at r s i j" by auto
  then have "i < Suc (length s)" "drop j s \<in> set (mseq r (drop i s))"
    "length s - length (drop j s) = j"
    by (auto simp: matches_at_def)
  then show "p \<in> set (occurrences r s)"
    unfolding occurrences_def p by (force simp del: upt_Suc)
qed

lemma matches_at_Cons [simp]:
  "matches_at r (c # cs) (Suc i) (Suc j) \<longleftrightarrow> matches_at r cs i j"
  by (simp add: matches_at_def)








lemma set_greedy: "set (greedy c s) = {t. \<exists>m. s = m @ t \<and> list_all c m}"
proof (induction s)
  case Nil
  then show ?case by auto
next
  case (Cons x xs)
  show ?case
  proof (intro equalityI subsetI)
    fix t assume "t \<in> set (greedy c (x # xs))"
    then consider "t = x # xs" | "c x" "t \<in> set (greedy c xs)"
      by (auto split: if_splits)
    then show "t \<in> {t. \<exists>m. x # xs = m @ t \<and> list_all c m}"
    proof cases
      case 1
      then show ?thesis by (auto intro: exI [of _ "[]"])
    next
      case 2
      with Cons obtain m where "xs = m @ t" "list_all c m" by auto
      with 2 show ?thesis by (auto intro: exI [of _ "x # m"])
    qed
  next
    fix t assume "t \<in> {t. \<exists>m. x # xs = m @ t \<and> list_all c m}"
    then obtain m where m: "x # xs = m @ t" "list_all c m" by auto
    show "t \<in> set (greedy c (x # xs))"
    proof (cases m)
      case Nil
      with m show ?thesis by auto
    next
      case (Cons y ys)
      with m have "c x" "xs = ys @ t" "list_all c ys" by auto
      with Cons.IH show ?thesis by auto
    qed
  qed
qed

lemma set_lazy: "set (lazy c s) = set (greedy c s)"
  by (induction s) auto

lemma ms_lang: "eol_free_item i \<Longrightarrow> set (ms i s) = {t. \<exists>m\<in>lang_item i. s = m @ t}"
  and mseq_lang: "eol_free r \<Longrightarrow> set (mseq r s) = {t. \<exists>m\<in>lang r. s = m @ t}"
proof (induction i s and r s rule: ms_mseq.induct)
  case (1 a s)
  then show ?case by (cases s) auto
next
  case (2 c s)
  then show ?case by (auto simp: set_greedy)
next
  case (3 c s)
  then show ?case by (auto simp: set_lazy set_greedy)
next
  case (4 c s)
  show ?case
  proof (cases s)
    case Nil
    then show ?thesis by auto
  next
    case (Cons x xs)
    show ?thesis
    proof (intro equalityI subsetI)
      fix t assume "t \<in> set (ms (Plus c) s)"
      with Cons have "c x" "t \<in> set (greedy c xs)" by (auto split: if_splits)
      then obtain m where "xs = m @ t" "list_all c m" by (auto simp: set_greedy)
      with \<open>c x\<close> Cons show "t \<in> {t. \<exists>m\<in>lang_item (Plus c). s = m @ t}"
        by (auto intro: bexI [of _ "x # m"])
    next
      fix t assume "t \<in> {t. \<exists>m\<in>lang_item (Plus c). s = m @ t}"
      then obtain m where m: "m \<noteq> []" "list_all c m" "s = m @ t" by auto
      then obtain y ys where "m = y # ys" by (cases m) auto
      with m Cons have "c x" "xs = ys @ t" "list_all c ys" by auto
      then have "t \<in> set (greedy c xs)" by (auto simp: set_greedy)
      with \<open>c x\<close> Cons show "t \<in> set (ms (Plus c) s)" by simp
    qed
  qed
next
  case (5 r s)
  then show ?case by auto
next
  case (6 s)
  then show ?case by simp
next
  case (7 s)
  then show ?case by simp
next
  case (8 i r s)
  then have i: "set (ms i s) = {t. \<exists>m\<in>lang_item i. s = m @ t}"
    and r: "\<And>u. u \<in> set (ms i s) \<Longrightarrow> set (mseq r u) = {t. \<exists>m\<in>lang r. u = m @ t}"
    by simp_all
  show ?case
  proof (intro equalityI subsetI)
    fix t assume "t \<in> set (mseq (i # r) s)"
    then obtain u where u: "u \<in> set (ms i s)" and t: "t \<in> set (mseq r u)" by auto
    from u i obtain m1 where "m1 \<in> lang_item i" "s = m1 @ u" by auto
    moreover from r [OF u] t obtain m2 where "m2 \<in> lang r" "u = m2 @ t" by auto
    ultimately have "m1 @ m2 \<in> lang (i # r)" "s = (m1 @ m2) @ t" by auto
    then show "t \<in> {t. \<exists>m\<in>lang (i # r). s = m @ t}" by blast
  next
    fix t assume "t \<in> {t. \<exists>m\<in>lang (i # r). s = m @ t}"
    then obtain m1 m2 where m: "m1 \<in> lang_item i" "m2 \<in> lang r" "s = (m1 @ m2) @ t" by auto
    then have u: "m2 @ t \<in> set (ms i s)" using i by auto
    from r [OF u] m have "t \<in> set (mseq r (m2 @ t))" by auto
    with u show "t \<in> set (mseq (i # r) s)" by auto
  qed
qed

lemma matches_at_lang:
  assumes "eol_free r"
  shows "matches_at r s i j \<longleftrightarrow> i \<le> j \<and> j \<le> length s \<and> take (j - i) (drop i s) \<in> lang r"
proof -
  have "drop j s \<in> set (mseq r (drop i s)) \<longleftrightarrow> take (j - i) (drop i s) \<in> lang r"
    if "i \<le> j" "j \<le> length s"
  proof
    assume "drop j s \<in> set (mseq r (drop i s))"
    with mseq_lang [OF assms] obtain m where m: "m \<in> lang r" "drop i s = m @ drop j s" by auto
    then have "length m = j - i" using that
      by (metis add_diff_cancel_right' length_append length_drop diff_diff_cancel diff_le_self
          le_trans Nat.diff_diff_eq diff_commute)
    with m show "take (j - i) (drop i s) \<in> lang r" by simp
  next
    assume a: "take (j - i) (drop i s) \<in> lang r"
    have "drop i s = take (j - i) (drop i s) @ drop j s"
      using that by (metis append_take_drop_id drop_drop le_add_diff_inverse2)
    with a mseq_lang [OF assms] show "drop j s \<in> set (mseq r (drop i s))" by blast
  qed
  then show ?thesis by (auto simp: matches_at_def)
qed

lemma eol_free_patterns:
  "eol_free (func_pattern w)" "eol_free (interface_pattern w)" "eol_free (struct_pattern w)"
  by (simp_all add: func_pattern_def interface_pattern_def struct_pattern_def lit_def str_def)

lemma occurrences_lang:
  "eol_free r \<Longrightarrow>
   set (occurrences r s) = {(i, j). i \<le> j \<and> j \<le> length s \<and> take (j - i) (drop i s) \<in> lang r}"
  by (simp add: set_occurrences matches_at_lang)

lemma mseq_Lit_shorter: "t \<in> set (mseq (Lit a # r) s) \<Longrightarrow> length t < length s"
proof (cases s)
  case Nil
  assume "t \<in> set (mseq (Lit a # r) s)"
  with Nil show ?thesis by simp
next
  case (Cons x xs)
  assume "t \<in> set (mseq (Lit a # r) s)"
  with Cons have "t \<in> set (mseq r xs)" by (auto split: if_splits)
  then have "suffix t xs" by (rule mseq_suffix)
  then show ?thesis using Cons suffix_length_le by fastforce
qed

section \<open>Pattern extraction\<close>



text \<open>
  Two examples of what the patterns take and leave: with nested braces the match ends at
  the first closing brace, and a declaration whose return type is not one word followed
  by whitespace is none of the three shapes.
\<close>

lemma extract_go_patterns_nested_example:
  "extract_go_patterns ascii_alnum (str ''func f() int { if x { a } }'') =
     [str ''func f() int { if x { a }'']"
  by (simp add: extract_go_patterns_def re_match_def func_pattern_def interface_pattern_def
      struct_pattern_def lit_def str_def isspace_def isword_def ascii_alnum_def)

lemma extract_go_patterns_pointer_example:
  "extract_go_patterns ascii_alnum (str ''func f() *T {}'') = []"
  by (simp add: extract_go_patterns_def re_match_def func_pattern_def interface_pattern_def
      struct_pattern_def lit_def str_def isspace_def isword_def ascii_alnum_def)

section \<open>Comment removal\<close>

lemma concat_map_single [simp]: "concat (map (\<lambda>s. [s]) xs) = xs"
  by (induction xs) auto

lemma mseq_single_Lit [simp]:
  "mseq (Lit a # r) s = (case s of [] \<Rightarrow> [] | x # xs \<Rightarrow> if x = a then mseq r xs else [])"
  by (simp split: list.splits)





declare re_sub.simps [simp del]
declare re_search.simps [simp del]

subsection \<open>Line comments\<close>







subsection \<open>Block comments\<close>















subsection \<open>Runs of blank lines\<close>

lemma isspace_nl [simp]: "isspace 10"
  by (simp add: isspace_def)

lemma mseq_ws_nl: "mseq [Star isspace, Lit 10] s = ws_nl s"
  by (induction s) (auto split: list.splits)

lemma re_match_blank_run:
  "re_match blank_run s =
     (case s of
        [] \<Rightarrow> None
      | x # xs \<Rightarrow> if x = 10 then (case ws_nl xs of [] \<Rightarrow> None | t # _ \<Rightarrow> Some t) else None)"
  using mseq_ws_nl
  by (simp add: re_match_def blank_run_def split: list.splits)

lemma re_match_blank_None: "re_match blank_run s = None \<longleftrightarrow> \<not> blank_at s"
  by (auto simp: re_match_blank_run blank_at_def split: list.splits)

lemma re_search_blank_Cons:
  "re_search blank_run (c # cs) \<longleftrightarrow> blank_at (c # cs) \<or> re_search blank_run cs"
  by (simp add: re_search.simps re_match_blank_None)

lemma re_search_blank_Nil: "\<not> re_search blank_run []"
  by (simp add: re_search.simps re_match_blank_None blank_at_def)










lemma re_search_suffix: "suffix t s \<Longrightarrow> re_search r t \<Longrightarrow> re_search r s"
proof (induction s)
  case Nil
  then show ?case by simp
next
  case (Cons c cs)
  then show ?case by (auto simp: suffix_Cons re_search.simps)
qed




subsection \<open>strip\<close>












subsection \<open>Lines\<close>

lemma split_nl_not_Nil [simp]: "split_nl s \<noteq> []"
  by (induction s) (auto split: list.splits)







text \<open>
  The text of the specification's example, and a text in which the line comment pattern
  takes the end of a block comment: the substitutions run one after the other, each on
  the result of the one before.
\<close>

lemma clean_go_code_example:
  "clean_go_code (str ''package main\<newline>// hi\<newline>func main(){}\<newline>'') =
     str ''package main\<newline>func main(){}''"
  by (simp add: clean_go_code_def re_sub.simps re_match_def line_comment_def block_comment_def
      blank_run_def lit_def str_def strip_def isspace_def)

lemma clean_go_code_url_example:
  "clean_go_code (str ''/* see http://x */ f()'') = str ''/* see http:''"
  by (simp add: clean_go_code_def re_sub.simps re_match_def line_comment_def block_comment_def
      blank_run_def lit_def str_def strip_def isspace_def)

subsection \<open>The cleaned text\<close>



lemma ws_nl_iff: "ws_nl s \<noteq> [] \<longleftrightarrow> (\<exists>v w. s = v @ 10 # w \<and> list_all isspace v)"
proof (induction s)
  case Nil
  then show ?case by simp
next
  case (Cons x xs)
  show ?case
  proof
    assume "ws_nl (x # xs) \<noteq> []"
    then have x: "isspace x" and "x = 10 \<or> ws_nl xs \<noteq> []" by (auto split: if_splits)
    then consider "x = 10" | v w where "xs = v @ 10 # w" "list_all isspace v"
      using Cons.IH by blast
    then show "\<exists>v w. x # xs = v @ 10 # w \<and> list_all isspace v"
    proof cases
      case 1
      then have "x # xs = [] @ 10 # xs \<and> list_all isspace []" by simp
      then show ?thesis by blast
    next
      case 2
      with x have "x # xs = (x # v) @ 10 # w \<and> list_all isspace (x # v)" by simp
      then show ?thesis by blast
    qed
  next
    assume "\<exists>v w. x # xs = v @ 10 # w \<and> list_all isspace v"
    then obtain v w where vw: "x # xs = v @ 10 # w" "list_all isspace v" by blast
    show "ws_nl (x # xs) \<noteq> []"
    proof (cases v)
      case Nil
      with vw show ?thesis by simp
    next
      case (Cons y ys)
      with vw have "isspace x" "xs = ys @ 10 # w" "list_all isspace ys" by auto
      with Cons.IH show ?thesis by auto
    qed
  qed
qed

lemma re_search_blank_iff:
  "re_search blank_run s \<longleftrightarrow> (\<exists>u v w. s = u @ 10 # v @ 10 # w \<and> list_all isspace v)"
proof
  show "re_search blank_run s \<Longrightarrow> \<exists>u v w. s = u @ 10 # v @ 10 # w \<and> list_all isspace v"
  proof (induction s)
    case Nil
    then show ?case by (simp add: re_search_blank_Nil)
  next
    case (Cons c cs)
    then consider "blank_at (c # cs)" | "re_search blank_run cs"
      by (auto simp: re_search_blank_Cons)
    then show ?case
    proof cases
      case 1
      then obtain v w where "c # cs = [] @ 10 # v @ 10 # w" "list_all isspace v"
        by (auto simp: blank_at_def ws_nl_iff)
      then show ?thesis by blast
    next
      case 2
      with Cons.IH obtain u v w where "cs = u @ 10 # v @ 10 # w" "list_all isspace v" by blast
      then have "c # cs = (c # u) @ 10 # v @ 10 # w \<and> list_all isspace v" by simp
      then show ?thesis by blast
    qed
  qed
next
  assume "\<exists>u v w. s = u @ 10 # v @ 10 # w \<and> list_all isspace v"
  then obtain u v w where s: "s = u @ 10 # v @ 10 # w" and v: "list_all isspace v" by blast
  from v have "ws_nl (v @ 10 # w) \<noteq> []" by (auto simp: ws_nl_iff)
  then have "blank_at (10 # v @ 10 # w)" by (simp add: blank_at_def)
  then have "re_search blank_run (10 # v @ 10 # w)"
    by (simp add: re_search_blank_Cons)
  then show "re_search blank_run s"
    unfolding s by (rule re_search_suffix [rotated]) (simp add: suffix_def)
qed






end
